theory Spec2Isabelle
  imports Main "HOL-Library.Word"
begin

unbundle bit_operations_syntax

section \<open>Data model of \<open>parsing/utf8.cc\<close>\<close>

text \<open>
  A \<open>char\<close> of the source is an 8-bit value, \<open>unsigned int\<close> and \<open>char32_t\<close> are
  32-bit values. A byte range \<open>[start, end)\<close> of the source is a pair of iterators
  into one buffer: here the buffer is a list of bytes and an iterator is an index
  into it, so that iterator differences (\<open>position - start\<close>) are differences of
  indices.
\<close>

type_synonym cchar = "8 word"
type_synonym uint = "32 word"
type_synonym char32_t = "32 word"

text \<open>
  Modelled from the spec: \<open>reason_t\<close> is declared in \<open>parsing/utf8.hpp\<close>, which is
  not among the sources; the spec gives it as
  \<open>{ explanation: text | empty, position: byte offset }\<close>, and \<open>utf8.cc\<close> assigns
  string literals to \<open>explanation\<close> and iterator differences to \<open>position\<close>.
\<close>

record reason_t =
  explanation :: string
  position :: nat

definition HIGH_BIT :: uint where "HIGH_BIT = 0x80"
definition HIGH_TWO_BITS :: uint where "HIGH_TWO_BITS = 0xC0"
definition HIGH_THREE_BITS :: uint where "HIGH_THREE_BITS = 0xE0"
definition HIGH_FOUR_BITS :: uint where "HIGH_FOUR_BITS = 0xF0"
definition HIGH_FIVE_BITS :: uint where "HIGH_FIVE_BITS = 0xF8"

text \<open>
  The integer promotion of a \<open>char\<close> operand that meets an \<open>unsigned int\<close>: plain
  \<open>char\<close> is signed on the platforms the program is built for, so the value is
  sign-extended to 32 bits. (Every use below masks the result with a constant
  below \<open>0x100\<close> or is reached only with the high bit clear.)
\<close>

definition promote :: "cchar \<Rightarrow> uint" where
  "promote c = scast c"

subsection \<open>Byte classifier\<close>

definition is_standalone :: "cchar \<Rightarrow> bool" where
  "is_standalone c \<longleftrightarrow> (promote c AND HIGH_BIT) = 0"

definition is_twobyte_start :: "cchar \<Rightarrow> bool" where
  "is_twobyte_start c \<longleftrightarrow> (promote c AND HIGH_THREE_BITS) = HIGH_TWO_BITS"

definition is_threebyte_start :: "cchar \<Rightarrow> bool" where
  "is_threebyte_start c \<longleftrightarrow> (promote c AND HIGH_FOUR_BITS) = HIGH_THREE_BITS"

definition is_fourbyte_start :: "cchar \<Rightarrow> bool" where
  "is_fourbyte_start c \<longleftrightarrow> (promote c AND HIGH_FIVE_BITS) = HIGH_FOUR_BITS"

definition is_continuation :: "cchar \<Rightarrow> bool" where
  "is_continuation c \<longleftrightarrow> (promote c AND HIGH_TWO_BITS) = HIGH_BIT"

definition extract_bits :: "cchar \<Rightarrow> uint \<Rightarrow> uint" where
  "extract_bits c bits = (promote c AND NOT bits) AND 0xFF"

definition continuation_data :: "cchar \<Rightarrow> uint" where
  "continuation_data c = extract_bits c HIGH_TWO_BITS"

definition extract_and_shift :: "cchar \<Rightarrow> uint \<Rightarrow> nat \<Rightarrow> uint" where
  "extract_and_shift c bits amount = push_bit amount (extract_bits c bits)"

subsection \<open>References returned by the functions\<close>

text \<open>
  \<open>fail\<close>, \<open>next_codepoint\<close> and \<open>next_textual_element\<close> are declared to return
  \<open>Iterator &&\<close>, and each ends in \<open>return std::move(x)\<close> where \<open>x\<close> is a reference
  parameter (\<open>fail\<close>) or a local variable of the function (\<open>position\<close> in
  \<open>next_codepoint\<close>; \<open>cbegin\<close>, \<open>cend\<close> in \<open>next_textual_element\<close>). What the
  caller gets is therefore a reference, not a copy. A reference is \<open>Live\<close> while the
  variable it refers to exists and \<open>Dead\<close> once the function that owns the variable
  has returned; in both cases it carries the value the variable holds (held, for a
  dead one). Reading through a dead reference is undefined behaviour in C++: the
  model makes it an error value, and every function that reads one returns that
  error.
\<close>

datatype undefined_behaviour = Read_of_dead_local

datatype 'a rvalue_ref = Live (referent: 'a) | Dead (referent: 'a)

definition read_ref :: "'a rvalue_ref \<Rightarrow> undefined_behaviour + 'a" where
  "read_ref ref = (case ref of Live x \<Rightarrow> Inr x | Dead x \<Rightarrow> Inl Read_of_dead_local)"

text \<open>
  The return of a function whose result refers to one of its own locals: the
  lifetime of the local ends, the reference that leaves the function is dead.
\<close>

definition end_of_scope :: "'a rvalue_ref \<times> 'b \<times> 'c \<Rightarrow> 'a rvalue_ref \<times> 'b \<times> 'c" where
  "end_of_scope t = (case t of (ref, c, r) \<Rightarrow> (Dead (referent ref), c, r))"

subsection \<open>Codepoint decoder\<close>

text \<open>
  \<open>fail\<close> writes the reason and the replacement character through its pointer
  arguments and returns the reference \<open>position\<close> it was given, which is bound to
  the variable \<open>position\<close> of \<open>next_codepoint\<close>, alive while \<open>fail\<close> runs. The model
  returns the three values \<open>(returned reference, *codepoint, *reason)\<close>. Every call
  site has incremented \<open>position\<close> at least once past \<open>start\<close>, so the subtraction
  does not wrap.
\<close>

definition fail :: "string \<Rightarrow> nat \<Rightarrow> nat \<Rightarrow> nat rvalue_ref \<times> char32_t \<times> reason_t" where
  "fail expl start pos =
     (Live pos, 0xFFFD, \<lparr>explanation = expl, position = pos - start - 1\<rparr>)"

text \<open>The null pointer returned for a valid continuation byte is \<open>None\<close>.\<close>

definition is_valid_continuation_byte :: "cchar list \<Rightarrow> nat \<Rightarrow> nat \<Rightarrow> string option" where
  "is_valid_continuation_byte buf pos e =
     (if pos = e then Some ''Expected continuation byte, saw end of string''
      else if \<not> is_continuation (buf ! pos)
        then Some ''Expected continuation byte, saw something else''
      else None)"

definition no_reason :: reason_t where
  "no_reason = \<lparr>explanation = '''', position = 0\<rparr>"

text \<open>
  \<open>next_codepoint buf start e codepoint\<close>: \<open>codepoint\<close> is the value that
  \<open>*codepoint\<close> holds on entry (it is left as it is when the range is empty); the
  result is \<open>(returned reference, *codepoint, *reason)\<close> on exit. \<open>*reason\<close> is
  overwritten at once, so its value on entry is not a parameter. Inside the body
  every \<open>return\<close> yields a reference to the live local \<open>position\<close>
  (\<open>std::move(position)\<close>, or what \<open>fail\<close> hands back); the function then returns
  and the local is gone, which is \<open>end_of_scope\<close> around the body: the caller
  always receives a dead reference. \<open>*codepoint\<close> and \<open>*reason\<close> belong to the
  caller and are written before the return.
\<close>

definition next_codepoint ::
  "cchar list \<Rightarrow> nat \<Rightarrow> nat \<Rightarrow> char32_t \<Rightarrow> nat rvalue_ref \<times> char32_t \<times> reason_t" where
  "next_codepoint buf start e codepoint =
     end_of_scope
     (if start = e then (Live start, codepoint, no_reason)
      else
        let current = buf ! start; p1 = start + 1 in
        if is_standalone current then (Live p1, promote current, no_reason)
        else if is_twobyte_start current then
          (let c0 = extract_and_shift current HIGH_THREE_BITS 6 in
           case is_valid_continuation_byte buf p1 e of
             Some expl \<Rightarrow> fail expl start p1
           | None \<Rightarrow>
              (let c1 = c0 OR continuation_data (buf ! p1); p2 = p1 + 1 in
               if c1 < 0x0080 then fail ''Overlong encoding seen'' start p2
               else (Live p2, c1, no_reason)))
        else if is_threebyte_start current then
          (let c0 = extract_and_shift current HIGH_FOUR_BITS 12 in
           case is_valid_continuation_byte buf p1 e of
             Some expl \<Rightarrow> fail expl start p1
           | None \<Rightarrow>
              (let c1 = c0 OR push_bit 6 (continuation_data (buf ! p1)); p2 = p1 + 1 in
               (case is_valid_continuation_byte buf p2 e of
                  Some expl \<Rightarrow> fail expl start p2
                | None \<Rightarrow>
                   (let c2 = c1 OR continuation_data (buf ! p2); p3 = p2 + 1 in
                    if c2 < 0x0800 then fail ''Overlong encoding seen'' start p3
                    else (Live p3, c2, no_reason)))))
        else if is_fourbyte_start current then
          (let c0 = extract_and_shift current HIGH_FIVE_BITS 18 in
           case is_valid_continuation_byte buf p1 e of
             Some expl \<Rightarrow> fail expl start p1
           | None \<Rightarrow>
              (let c1 = c0 OR push_bit 12 (continuation_data (buf ! p1)); p2 = p1 + 1 in
               (case is_valid_continuation_byte buf p2 e of
                  Some expl \<Rightarrow> fail expl start p2
                | None \<Rightarrow>
                   (let c2 = c1 OR push_bit 6 (continuation_data (buf ! p2)); p3 = p2 + 1 in
                    (case is_valid_continuation_byte buf p3 e of
                       Some expl \<Rightarrow> fail expl start p3
                     | None \<Rightarrow>
                        (let c3 = c2 OR continuation_data (buf ! p3); p4 = p3 + 1 in
                         if c3 < 0x10000 then fail ''Overlong encoding seen'' start p4
                         else if c3 > 0x10FFFF
                           then fail ''Non-Unicode character encoded (beyond U+10FFFF)'' start p4
                         else (Live p4, c3, no_reason)))))))
        else fail ''Invalid initial byte seen'' start p1)"

subsection \<open>Validity scanner\<close>

text \<open>
  The \<open>while\<close> loop of \<open>is_valid_internal\<close>, from the state in which \<open>cbegin\<close> has
  the given value and \<open>*reason\<close> holds \<open>reason\<close>. The loop test is the source's
  \<open>cbegin != end\<close>, so the loop is a partial function: \<open>None\<close> is a run that
  never returns. The assignment \<open>cend = next_codepoint(...)\<close> reads the iterator
  through the reference that \<open>next_codepoint\<close> returned (\<open>read_ref\<close>). The local
  \<open>codepoint\<close> is written by every call of \<open>next_codepoint\<close> in the loop (the range
  is never empty there) and never read, so it is not part of the loop state; the
  call is given \<open>0\<close> for its contents. The result is \<open>(returned bool, *reason)\<close>, or
  the undefined behaviour the run met.
\<close>

partial_function (option) is_valid_loop ::
  "cchar list \<Rightarrow> nat \<Rightarrow> nat \<Rightarrow> nat \<Rightarrow> reason_t
     \<Rightarrow> (undefined_behaviour + bool \<times> reason_t) option" where
  "is_valid_loop buf begin e cbegin reason =
     (if cbegin \<noteq> e then
        (case next_codepoint buf cbegin e 0 of
           (ref, codepoint, reason') \<Rightarrow>
             (case read_ref ref of
                Inl ub \<Rightarrow> Some (Inl ub)
              | Inr cend \<Rightarrow>
                  if explanation reason' \<noteq> []
                  then Some (Inr (False,
                         reason'\<lparr>position := position reason' + (cbegin - begin)\<rparr>))
                  else is_valid_loop buf begin e cend reason'))
      else Some (Inr (True, reason)))"

definition is_valid_internal ::
  "cchar list \<Rightarrow> nat \<Rightarrow> nat \<Rightarrow> reason_t \<Rightarrow> (undefined_behaviour + bool \<times> reason_t) option" where
  "is_valid_internal buf begin e reason = is_valid_loop buf begin e begin reason"

text \<open>
  \<open>is_valid(str, &reason)\<close> and \<open>is_valid(str)\<close> on a whole string; the second has a
  local \<open>reason_t\<close> of its own, whose contents do not reach the result.
\<close>

definition is_valid_reason ::
  "cchar list \<Rightarrow> reason_t \<Rightarrow> (undefined_behaviour + bool \<times> reason_t) option" where
  "is_valid_reason str reason = is_valid_internal str 0 (length str) reason"

definition is_valid :: "cchar list \<Rightarrow> (undefined_behaviour + bool) option" where
  "is_valid str =
     map_option (map_sum id fst) (is_valid_internal str 0 (length str) no_reason)"

subsection \<open>Cursor\<close>

text \<open>
  Modelled from the spec: the class \<open>iterator_t\<close> and its member \<open>saw_error\<close> are
  declared in \<open>parsing/utf8.hpp\<close>, which is not among the sources. The fields are
  those that \<open>advance\<close> reads and writes; the spec gives \<open>failed?\<close> as
  "reason non-empty". The fields \<open>position\<close> and \<open>end\<close> of the source are
  \<open>position'\<close> and \<open>end'\<close> here.
\<close>

record iterator_t =
  start :: nat
  position' :: nat
  end' :: nat
  last_seen :: char32_t
  reason :: reason_t
  seen_end :: bool

definition saw_error :: "iterator_t \<Rightarrow> bool" where
  "saw_error it \<longleftrightarrow> explanation (reason it) \<noteq> []"

text \<open>
  \<open>advance\<close> returns the cursor it leaves, or the undefined behaviour it met:
  \<open>Iterator new_position = next_codepoint(...)\<close> copies the iterator out of the
  reference that \<open>next_codepoint\<close> returned. The two early returns do not call
  \<open>next_codepoint\<close>.
\<close>

definition advance :: "cchar list \<Rightarrow> iterator_t \<Rightarrow> undefined_behaviour + iterator_t" where
  "advance buf it =
     (if seen_end it then Inr it
      else if position' it = end' it then
        Inr (it\<lparr>seen_end := True, last_seen := 0,
                reason := \<lparr>explanation = [], position = 0\<rparr>\<rparr>)
      else
        (case next_codepoint buf (position' it) (end' it) (last_seen it) of
           (ref, codepoint, reason') \<Rightarrow>
             (case read_ref ref of
                Inl ub \<Rightarrow> Inl ub
              | Inr new_position \<Rightarrow>
                  let it1 = it\<lparr>last_seen := codepoint, reason := reason'\<rparr>;
                      it2 = (if saw_error it1
                             then it1\<lparr>reason := (reason it1)\<lparr>position :=
                                    position (reason it1) + (position' it - start it)\<rparr>\<rparr>
                             else it1)
                  in Inr (it2\<lparr>position' := new_position\<rparr>))))"

subsection \<open>Textual element scanner\<close>

text \<open>
  The \<open>do ... while\<close> loop of \<open>next_textual_element\<close>, entered at the top of its
  body with the given \<open>cbegin\<close> and contents of \<open>codepoint\<close>. The first statement
  of the body, \<open>cend = next_codepoint(...)\<close>, reads the iterator through the
  reference that \<open>next_codepoint\<close> returned. Every \<open>return\<close> of the function is
  \<open>std::move\<close> of its local \<open>cbegin\<close> or \<open>cend\<close> through the return type
  \<open>Iterator &&\<close>, so what it returns is a dead reference as well. The result is
  \<open>(returned reference, *reason)\<close>, or the undefined behaviour the run met.
\<close>

partial_function (option) next_textual_element_loop ::
  "cchar list \<Rightarrow> nat \<Rightarrow> nat \<Rightarrow> (char32_t \<Rightarrow> bool) \<Rightarrow> nat \<Rightarrow> char32_t
     \<Rightarrow> (undefined_behaviour + nat rvalue_ref \<times> reason_t) option" where
  "next_textual_element_loop buf begin e keep_going cbegin codepoint =
     (case next_codepoint buf cbegin e codepoint of
        (ref, codepoint', reason') \<Rightarrow>
          (case read_ref ref of
             Inl ub \<Rightarrow> Some (Inl ub)
           | Inr cend \<Rightarrow>
               if explanation reason' \<noteq> [] then
                 (let reason'' = reason'\<lparr>position := position reason' + (cbegin - begin)\<rparr> in
                  if cbegin = begin then Some (Inr (Dead cend, reason''))
                  else Some (Inr (Dead cbegin, reason'')))
               else if cbegin \<noteq> begin \<and> \<not> keep_going codepoint'
                 then Some (Inr (Dead cbegin, reason'))
               else if cend \<noteq> e
                 then next_textual_element_loop buf begin e keep_going cend codepoint'
               else Some (Inr (Dead cend, reason'))))"

text \<open>
  The local \<open>codepoint\<close> is not initialised in the source; \<open>0\<close> stands for its
  first contents. It would be read by \<open>keep_going(codepoint)\<close> only after a call of
  \<open>next_codepoint\<close> on a non-empty range has written it.
\<close>

definition next_textual_element ::
  "cchar list \<Rightarrow> nat \<Rightarrow> nat \<Rightarrow> (char32_t \<Rightarrow> bool)
     \<Rightarrow> (undefined_behaviour + nat rvalue_ref \<times> reason_t) option" where
  "next_textual_element buf begin e keep_going =
     next_textual_element_loop buf begin e keep_going begin 0"

declare is_valid_loop.simps [code]
declare next_textual_element_loop.simps [code]

subsection \<open>Notions the claims use\<close>

text \<open>
  What a call leaves behind, whether or not the caller can read all of it: the value
  that the variable behind the returned reference holds at the return, \<open>*codepoint\<close>
  and \<open>*reason\<close>.
\<close>

definition state_of :: "'a rvalue_ref \<times> 'b \<times> 'c \<Rightarrow> 'a \<times> 'b \<times> 'c" where
  "state_of t = (case t of (ref, c, r) \<Rightarrow> (referent ref, c, r))"

abbreviation next_codepoint_state ::
  "cchar list \<Rightarrow> nat \<Rightarrow> nat \<Rightarrow> char32_t \<Rightarrow> nat \<times> char32_t \<times> reason_t" where
  "next_codepoint_state buf s e cp \<equiv> state_of (next_codepoint buf s e cp)"

abbreviation fail_state :: "string \<Rightarrow> nat \<Rightarrow> nat \<Rightarrow> nat \<times> char32_t \<times> reason_t" where
  "fail_state expl s pos \<equiv> state_of (fail expl s pos)"

text \<open>
  The number of bytes that a lead byte announces, by the branch of
  \<open>next_codepoint\<close> that the byte takes (in the order of the source's tests);
  0 for a byte that takes the last branch.
\<close>

definition announced_length :: "cchar \<Rightarrow> nat" where
  "announced_length c =
     (if is_standalone c then 1
      else if is_twobyte_start c then 2
      else if is_threebyte_start c then 3
      else if is_fourbyte_start c then 4
      else 0)"

text \<open>
  A multi-byte sequence truncated by the end of the range: the range is not empty,
  it is shorter than the lead byte announces, and every byte after the lead is a
  continuation byte.
\<close>

definition truncated :: "cchar list \<Rightarrow> nat \<Rightarrow> nat \<Rightarrow> bool" where
  "truncated buf s e \<longleftrightarrow>
     s < e \<and> e \<le> length buf \<and> e - s < announced_length (buf ! s) \<and>
     (\<forall>i \<in> {s + 1 ..< e}. is_continuation (buf ! i))"

text \<open>
  The reference encoder of the claims about encoded input. The source has no
  encoder. This is the encoding table of UTF-8 (RFC 3629, section 3), on natural
  numbers: it is applied to every value up to \<open>0x10FFFF\<close>, the surrogates
  \<open>0xD800 .. 0xDFFF\<close> get the three-byte form like their neighbours.
\<close>

definition reference_encode :: "nat \<Rightarrow> cchar list" where
  "reference_encode v =
     (if v < 0x80 then [of_nat v]
      else if v < 0x800 then
        [of_nat (0xC0 OR drop_bit 6 v), of_nat (0x80 OR (v AND 0x3F))]
      else if v < 0x10000 then
        [of_nat (0xE0 OR drop_bit 12 v), of_nat (0x80 OR (drop_bit 6 v AND 0x3F)),
         of_nat (0x80 OR (v AND 0x3F))]
      else
        [of_nat (0xF0 OR drop_bit 18 v), of_nat (0x80 OR (drop_bit 12 v AND 0x3F)),
         of_nat (0x80 OR (drop_bit 6 v AND 0x3F)), of_nat (0x80 OR (v AND 0x3F))])"

section \<open>Evaluation and control flow of the decoder\<close>

lemmas classifier_defs =
  is_standalone_def is_twobyte_start_def is_threebyte_start_def is_fourbyte_start_def
  is_continuation_def extract_bits_def continuation_data_def extract_and_shift_def promote_def
  HIGH_BIT_def HIGH_TWO_BITS_def HIGH_THREE_BITS_def HIGH_FOUR_BITS_def HIGH_FIVE_BITS_def

text \<open>Evaluation of the functions as they are, references included.\<close>

lemmas reference_defs =
  next_codepoint_def end_of_scope_def fail_def read_ref_def is_valid_continuation_byte_def
  no_reason_def Let_def

text \<open>
  The caller of \<open>next_codepoint\<close> never gets a live reference, so every read of
  the returned iterator is undefined.
\<close>

lemma next_codepoint_dead:
  "fst (next_codepoint buf s e cp) = Dead (fst (next_codepoint_state buf s e cp))"
  "snd (next_codepoint buf s e cp) = snd (next_codepoint_state buf s e cp)"
  by (simp_all add: next_codepoint_def end_of_scope_def state_of_def split: prod.splits)

lemma next_codepoint_read: "read_ref (fst (next_codepoint buf s e cp)) = Inl Read_of_dead_local"
  by (simp add: next_codepoint_dead read_ref_def)

lemma next_codepoint_eq_iff:
  "next_codepoint buf s e cp = (ref, c, r) \<longleftrightarrow>
     ref = Dead (referent ref) \<and> next_codepoint_state buf s e cp = (referent ref, c, r)"
  by (auto simp add: next_codepoint_def end_of_scope_def state_of_def split: prod.splits)

text \<open>
  The state that a call leaves, as one conditional expression: the body of
  \<open>next_codepoint\<close> with the value of \<open>position\<close> in place of the reference to it.
\<close>

lemma fail_state_eq:
  "fail_state expl s pos = (pos, 0xFFFD, \<lparr>explanation = expl, position = pos - s - 1\<rparr>)"
  by (simp add: fail_def state_of_def)

lemma state_of_Live: "state_of (Live p, c, r) = (p, c, r)"
  by (simp add: state_of_def)

lemma state_of_end_of_scope: "state_of (end_of_scope t) = state_of t"
  by (simp add: state_of_def end_of_scope_def split: prod.splits)

lemma next_codepoint_state_unfold:
  "next_codepoint_state buf s e codepoint =
     (if s = e then (s, codepoint, no_reason)
      else
        let current = buf ! s; p1 = s + 1 in
        if is_standalone current then (p1, promote current, no_reason)
        else if is_twobyte_start current then
          (let c0 = extract_and_shift current HIGH_THREE_BITS 6 in
           case is_valid_continuation_byte buf p1 e of
             Some expl \<Rightarrow> fail_state expl s p1
           | None \<Rightarrow>
              (let c1 = c0 OR continuation_data (buf ! p1); p2 = p1 + 1 in
               if c1 < 0x0080 then fail_state ''Overlong encoding seen'' s p2
               else (p2, c1, no_reason)))
        else if is_threebyte_start current then
          (let c0 = extract_and_shift current HIGH_FOUR_BITS 12 in
           case is_valid_continuation_byte buf p1 e of
             Some expl \<Rightarrow> fail_state expl s p1
           | None \<Rightarrow>
              (let c1 = c0 OR push_bit 6 (continuation_data (buf ! p1)); p2 = p1 + 1 in
               (case is_valid_continuation_byte buf p2 e of
                  Some expl \<Rightarrow> fail_state expl s p2
                | None \<Rightarrow>
                   (let c2 = c1 OR continuation_data (buf ! p2); p3 = p2 + 1 in
                    if c2 < 0x0800 then fail_state ''Overlong encoding seen'' s p3
                    else (p3, c2, no_reason)))))
        else if is_fourbyte_start current then
          (let c0 = extract_and_shift current HIGH_FIVE_BITS 18 in
           case is_valid_continuation_byte buf p1 e of
             Some expl \<Rightarrow> fail_state expl s p1
           | None \<Rightarrow>
              (let c1 = c0 OR push_bit 12 (continuation_data (buf ! p1)); p2 = p1 + 1 in
               (case is_valid_continuation_byte buf p2 e of
                  Some expl \<Rightarrow> fail_state expl s p2
                | None \<Rightarrow>
                   (let c2 = c1 OR push_bit 6 (continuation_data (buf ! p2)); p3 = p2 + 1 in
                    (case is_valid_continuation_byte buf p3 e of
                       Some expl \<Rightarrow> fail_state expl s p3
                     | None \<Rightarrow>
                        (let c3 = c2 OR continuation_data (buf ! p3); p4 = p3 + 1 in
                         if c3 < 0x10000 then fail_state ''Overlong encoding seen'' s p4
                         else if c3 > 0x10FFFF
                           then fail_state ''Non-Unicode character encoded (beyond U+10FFFF)'' s p4
                         else (p4, c3, no_reason)))))))
        else fail_state ''Invalid initial byte seen'' s p1)"
  unfolding next_codepoint_def state_of_end_of_scope
  by (simp add: state_of_Live Let_def split: option.splits)

lemmas decoder_defs =
  next_codepoint_state_unfold is_valid_continuation_byte_def fail_state_eq no_reason_def Let_def

text \<open>On a non-empty range the decoder moves forward and stays inside the range.\<close>

lemma next_codepoint_progress:
  "s < e \<Longrightarrow> s < fst (next_codepoint_state buf s e cp) \<and> fst (next_codepoint_state buf s e cp) \<le> e"
  by (simp add: next_codepoint_state_unfold Let_def is_valid_continuation_byte_def fail_state_eq
           split: option.splits)

text \<open>Every failure goes through \<open>fail\<close>: sentinel, and offset one less than the distance moved.\<close>

lemma next_codepoint_fail_shape:
  "s \<noteq> e \<Longrightarrow> next_codepoint_state buf s e cp0 = (p, cp, r) \<Longrightarrow> explanation r \<noteq> [] \<Longrightarrow>
     cp = 0xFFFD \<and> s < p \<and> position r = p - s - 1"
  by (auto simp add: decoder_defs split: option.splits if_splits)

text \<open>A truncated sequence runs into the end-of-input test of \<open>is_valid_continuation_byte\<close>.\<close>

lemma truncated_end_of_input:
  assumes "truncated buf s e"
  shows "next_codepoint_state buf s e cp =
     (e, 0xFFFD, \<lparr>explanation = ''Expected continuation byte, saw end of string'',
                  position = e - s - 1\<rparr>)"
proof -
  from assms have lt: "s < e" and len: "e - s < announced_length (buf ! s)"
    and cont: "\<And>i. s < i \<Longrightarrow> i < e \<Longrightarrow> is_continuation (buf ! i)"
    by (auto simp: truncated_def)
  from lt len consider
      (two) "\<not> is_standalone (buf ! s)" "is_twobyte_start (buf ! s)" "e - s < 2"
    | (three) "\<not> is_standalone (buf ! s)" "\<not> is_twobyte_start (buf ! s)"
        "is_threebyte_start (buf ! s)" "e - s < 3"
    | (four) "\<not> is_standalone (buf ! s)" "\<not> is_twobyte_start (buf ! s)"
        "\<not> is_threebyte_start (buf ! s)" "is_fourbyte_start (buf ! s)"
        "e - s < 4"
    by (auto simp: announced_length_def split: if_splits)
  then show ?thesis
  proof cases
    case two
    from lt two(3) have "e = s + 1" by arith
    with two show ?thesis by (simp add: decoder_defs)
  next
    case three
    from lt three(4) have "e = s + 1 \<or> e = s + 2" by arith
    with three cont [of "s + 1"] show ?thesis by (auto simp: decoder_defs)
  next
    case four
    from lt four(5) have "e = s + 1 \<or> e = s + 2 \<or> e = s + 3" by arith
    with four cont [of "s + 1"] cont [of "s + 2"] show ?thesis by (auto simp: decoder_defs)
  qed
qed


section \<open>Bytes as numbers\<close>

text \<open>
  A property of a single byte is checked on all 256 bytes. The classifier and the
  extraction of data bits become comparisons and remainders of the unsigned value.
\<close>

lemma byte_exhaust:
  assumes "list_all (\<lambda>n. P (of_nat n :: 8 word)) [0..<256]"
  shows "P c"
proof -
  have "unat c < 256" using unsigned_less [of c] by simp
  then have "unat c \<in> set [0..<256]" by simp
  with assms have "P (of_nat (unat c))" unfolding list_all_iff by blast
  then show ?thesis by simp
qed

lemma is_standalone_iff: "is_standalone c \<longleftrightarrow> unat c < 128"
  by (rule byte_exhaust) code_simp

lemma is_continuation_iff: "is_continuation c \<longleftrightarrow> 128 \<le> unat c \<and> unat c < 192"
  by (rule byte_exhaust) code_simp

lemma is_twobyte_start_iff: "is_twobyte_start c \<longleftrightarrow> 192 \<le> unat c \<and> unat c < 224"
  by (rule byte_exhaust) code_simp

lemma is_threebyte_start_iff: "is_threebyte_start c \<longleftrightarrow> 224 \<le> unat c \<and> unat c < 240"
  by (rule byte_exhaust) code_simp

lemma is_fourbyte_start_iff: "is_fourbyte_start c \<longleftrightarrow> 240 \<le> unat c \<and> unat c < 248"
  by (rule byte_exhaust) code_simp

lemma promote_standalone: "unat c < 128 \<longrightarrow> promote c = of_nat (unat c)"
  by (rule byte_exhaust) code_simp

text \<open>
  Whether plain \<open>char\<close> is signed does not matter to the decoder: with
  zero-extension in place of sign-extension every mask test and every extraction
  gives the same value, and a stand-alone byte converts to the same codepoint.
\<close>

lemma promote_sign_irrelevant:
  "(promote c AND HIGH_BIT) = (ucast c AND HIGH_BIT) \<and>
   (promote c AND HIGH_TWO_BITS) = (ucast c AND HIGH_TWO_BITS) \<and>
   (promote c AND HIGH_THREE_BITS) = (ucast c AND HIGH_THREE_BITS) \<and>
   (promote c AND HIGH_FOUR_BITS) = (ucast c AND HIGH_FOUR_BITS) \<and>
   (promote c AND HIGH_FIVE_BITS) = (ucast c AND HIGH_FIVE_BITS) \<and>
   extract_bits c HIGH_TWO_BITS = (ucast c AND NOT HIGH_TWO_BITS) AND 0xFF \<and>
   extract_bits c HIGH_THREE_BITS = (ucast c AND NOT HIGH_THREE_BITS) AND 0xFF \<and>
   extract_bits c HIGH_FOUR_BITS = (ucast c AND NOT HIGH_FOUR_BITS) AND 0xFF \<and>
   extract_bits c HIGH_FIVE_BITS = (ucast c AND NOT HIGH_FIVE_BITS) AND 0xFF \<and>
   (is_standalone c \<longrightarrow> promote c = ucast c)"
  by (rule byte_exhaust) code_simp

lemma continuation_data_unat: "unat (continuation_data c) = unat c mod 64"
  by (rule byte_exhaust) code_simp

lemma extract_bits_three_unat: "unat (extract_bits c HIGH_THREE_BITS) = unat c mod 32"
  by (rule byte_exhaust) code_simp

lemma extract_bits_four_unat: "unat (extract_bits c HIGH_FOUR_BITS) = unat c mod 16"
  by (rule byte_exhaust) code_simp

lemma extract_bits_five_unat: "unat (extract_bits c HIGH_FIVE_BITS) = unat c mod 8"
  by (rule byte_exhaust) code_simp

lemma nat_or_plus: "b < 2 ^ k \<Longrightarrow> (2 ^ k * a) OR b = 2 ^ k * a + (b::nat)"
proof -
  assume "b < 2 ^ k"
  then have b: "take_bit k b = b" by (simp add: take_bit_nat_eq_self_iff)
  have "push_bit k a + take_bit k b = push_bit k a OR take_bit k b"
    by (rule disjunctive_add) (auto simp: bit_simps)
  with b show ?thesis by (simp add: push_bit_eq_mult mult.commute)
qed

lemma unat_push_bit_small:
  fixes x :: "32 word"
  assumes "unat x * 2 ^ k < 2 ^ 32"
  shows "unat (push_bit k x) = 2 ^ k * unat x"
proof -
  have "unat (push_bit k x) = take_bit 32 (push_bit k (unat x))"
    by (simp add: unsigned_push_bit_eq)
  also have "\<dots> = push_bit k (unat x)"
    using assms by (simp add: take_bit_nat_eq_self_iff push_bit_eq_mult)
  finally show ?thesis by (simp add: push_bit_eq_mult)
qed

lemma lead_two_unat: "unat (extract_and_shift c HIGH_THREE_BITS 6) = 64 * (unat c mod 32)"
proof -
  have "unat (extract_bits c HIGH_THREE_BITS) * 2 ^ 6 < 2 ^ 32"
    unfolding extract_bits_three_unat by simp
  from unat_push_bit_small [OF this] show ?thesis
    by (simp add: extract_and_shift_def extract_bits_three_unat)
qed

lemma lead_three_unat: "unat (extract_and_shift c HIGH_FOUR_BITS 12) = 4096 * (unat c mod 16)"
proof -
  have "unat (extract_bits c HIGH_FOUR_BITS) * 2 ^ 12 < 2 ^ 32"
    unfolding extract_bits_four_unat by simp
  from unat_push_bit_small [OF this] show ?thesis
    by (simp add: extract_and_shift_def extract_bits_four_unat)
qed

lemma lead_four_unat: "unat (extract_and_shift c HIGH_FIVE_BITS 18) = 262144 * (unat c mod 8)"
proof -
  have "unat (extract_bits c HIGH_FIVE_BITS) * 2 ^ 18 < 2 ^ 32"
    unfolding extract_bits_five_unat by simp
  from unat_push_bit_small [OF this] show ?thesis
    by (simp add: extract_and_shift_def extract_bits_five_unat)
qed

lemma continuation_data_6_unat: "unat (push_bit 6 (continuation_data c)) = 64 * (unat c mod 64)"
proof -
  have "unat (continuation_data c) * 2 ^ 6 < 2 ^ 32"
    unfolding continuation_data_unat by simp
  from unat_push_bit_small [OF this] show ?thesis
    by (simp add: continuation_data_unat)
qed

lemma continuation_data_12_unat: "unat (push_bit 12 (continuation_data c)) = 4096 * (unat c mod 64)"
proof -
  have "unat (continuation_data c) * 2 ^ 12 < 2 ^ 32"
    unfolding continuation_data_unat by simp
  from unat_push_bit_small [OF this] show ?thesis
    by (simp add: continuation_data_unat)
qed

lemma value_two:
  "unat (extract_and_shift c0 HIGH_THREE_BITS 6 OR continuation_data c1) =
     64 * (unat c0 mod 32) + unat c1 mod 64"
  using nat_or_plus [of "unat c1 mod 64" 6 "unat c0 mod 32"]
  by (simp add: unsigned_or_eq lead_two_unat continuation_data_unat)

lemma value_three:
  "unat ((extract_and_shift c0 HIGH_FOUR_BITS 12 OR push_bit 6 (continuation_data c1))
          OR continuation_data c2) =
     4096 * (unat c0 mod 16) + 64 * (unat c1 mod 64) + unat c2 mod 64"
proof -
  have "4096 * (unat c0 mod 16) OR 64 * (unat c1 mod 64) =
        4096 * (unat c0 mod 16) + 64 * (unat c1 mod 64)"
    using nat_or_plus [of "64 * (unat c1 mod 64)" 12 "unat c0 mod 16"] by simp
  moreover have "(4096 * (unat c0 mod 16) + 64 * (unat c1 mod 64)) OR unat c2 mod 64 =
        4096 * (unat c0 mod 16) + 64 * (unat c1 mod 64) + unat c2 mod 64"
    using nat_or_plus [of "unat c2 mod 64" 6 "64 * (unat c0 mod 16) + unat c1 mod 64"] by simp
  ultimately show ?thesis
    by (simp add: unsigned_or_eq lead_three_unat continuation_data_unat continuation_data_6_unat)
qed

lemma value_four:
  "unat (((extract_and_shift c0 HIGH_FIVE_BITS 18 OR push_bit 12 (continuation_data c1))
          OR push_bit 6 (continuation_data c2)) OR continuation_data c3) =
     262144 * (unat c0 mod 8) + 4096 * (unat c1 mod 64) + 64 * (unat c2 mod 64) + unat c3 mod 64"
proof -
  have "262144 * (unat c0 mod 8) OR 4096 * (unat c1 mod 64) =
        262144 * (unat c0 mod 8) + 4096 * (unat c1 mod 64)"
    using nat_or_plus [of "4096 * (unat c1 mod 64)" 18 "unat c0 mod 8"] by simp
  moreover have "(262144 * (unat c0 mod 8) + 4096 * (unat c1 mod 64)) OR 64 * (unat c2 mod 64) =
        262144 * (unat c0 mod 8) + 4096 * (unat c1 mod 64) + 64 * (unat c2 mod 64)"
    using nat_or_plus [of "64 * (unat c2 mod 64)" 12 "64 * (unat c0 mod 8) + unat c1 mod 64"] by simp
  moreover have "(262144 * (unat c0 mod 8) + 4096 * (unat c1 mod 64) + 64 * (unat c2 mod 64))
          OR unat c3 mod 64 =
        262144 * (unat c0 mod 8) + 4096 * (unat c1 mod 64) + 64 * (unat c2 mod 64) + unat c3 mod 64"
    using nat_or_plus [of "unat c3 mod 64" 6
        "4096 * (unat c0 mod 8) + 64 * (unat c1 mod 64) + unat c2 mod 64"] by simp
  ultimately show ?thesis
    by (simp add: unsigned_or_eq lead_four_unat continuation_data_unat continuation_data_6_unat
          continuation_data_12_unat)
qed

section \<open>The reference encoder in arithmetic\<close>

lemma and_63: "(x::nat) AND 0x3F = x mod 64"
proof -
  have "x AND mask 6 = x mod 2 ^ 6"
    by (simp add: take_bit_eq_mod flip: take_bit_eq_mask)
  moreover have "mask 6 = (0x3F::nat)"
    by (simp add: mask_eq_exp_minus_1)
  ultimately show ?thesis by simp
qed

lemma tail_byte: "(0x80::nat) OR (x AND 0x3F) = 128 + x mod 64"
  using nat_or_plus [of "x mod 64" 6 2] by (simp add: and_63)

lemma lead_byte_two: "v < 0x800 \<Longrightarrow> (0xC0::nat) OR v div 64 = 192 + v div 64"
  using nat_or_plus [of "v div 64" 6 3] by simp

lemma lead_byte_three: "v < 0x10000 \<Longrightarrow> (0xE0::nat) OR v div 4096 = 224 + v div 4096"
  using nat_or_plus [of "v div 4096" 4 14] by simp

lemma lead_byte_four: "v \<le> 0x10FFFF \<Longrightarrow> (0xF0::nat) OR v div 262144 = 240 + v div 262144"
  using nat_or_plus [of "v div 262144" 3 30] by simp

lemma reference_encode_arith:
  "v \<le> 0x10FFFF \<Longrightarrow> reference_encode v =
     (if v < 128 then [of_nat v]
      else if v < 2048 then [of_nat (192 + v div 64), of_nat (128 + v mod 64)]
      else if v < 65536 then
        [of_nat (224 + v div 4096), of_nat (128 + v div 64 mod 64), of_nat (128 + v mod 64)]
      else
        [of_nat (240 + v div 262144), of_nat (128 + v div 4096 mod 64),
         of_nat (128 + v div 64 mod 64), of_nat (128 + v mod 64)])"
  by (simp add: reference_encode_def tail_byte lead_byte_two lead_byte_three lead_byte_four
        drop_bit_eq_div)

lemma unat_byte: "n < 256 \<Longrightarrow> unat (of_nat n :: cchar) = n"
  by (simp add: unat_of_nat)



lemma lead_mod_two: "x < 32 \<Longrightarrow> (192 + x) mod 32 = (x::nat)"
  using mod_mult_self4 [of 32 6 x] by simp

lemma lead_mod_three: "x < 16 \<Longrightarrow> (224 + x) mod 16 = (x::nat)"
  using mod_mult_self4 [of 16 14 x] by simp

lemma lead_mod_four: "x < 8 \<Longrightarrow> (240 + x) mod 8 = (x::nat)"
  using mod_mult_self4 [of 8 30 x] by simp

lemma tail_mod: "(128 + y mod 64) mod 64 = (y::nat) mod 64"
  using mod_mult_self4 [of 64 2 "y mod 64"] by simp

lemma digits2: "(v::nat) = 64 * (v div 64) + v mod 64"
  by simp

lemma digits3: "(v::nat) = 4096 * (v div 4096) + 64 * (v div 64 mod 64) + v mod 64"
proof -
  have "v mod (64 * 64) = 64 * (v div 64 mod 64) + v mod 64"
    by (rule mod_mult2_eq)
  moreover have "v = 4096 * (v div 4096) + v mod 4096" by simp
  ultimately show ?thesis by simp
qed

lemma digits4:
  "(v::nat) = 262144 * (v div 262144) + 4096 * (v div 4096 mod 64)
       + 64 * (v div 64 mod 64) + v mod 64"
proof -
  have "v mod (4096 * 64) = 4096 * (v div 4096 mod 64) + v mod 4096"
    by (rule mod_mult2_eq)
  moreover have "v mod (64 * 64) = 64 * (v div 64 mod 64) + v mod 64"
    by (rule mod_mult2_eq)
  moreover have "v = 262144 * (v div 262144) + v mod 262144" by simp
  ultimately show ?thesis by simp
qed

section \<open>The branches of the decoder on well-formed sequences\<close>

lemma word_eq_of_unat: "unat (w :: 32 word) = v \<Longrightarrow> w = of_nat v"
  by auto

lemma word_less_of_unat:
  "unat (w :: 32 word) = v \<Longrightarrow> unat (k :: 32 word) = n \<Longrightarrow> (w < k \<longleftrightarrow> v < n) \<and> (k < w \<longleftrightarrow> n < v)"
  by (auto simp: word_less_nat_alt)

lemma index_Suc:
  "s + 1 = Suc s" "s + 2 = Suc (Suc s)" "s + 3 = Suc (Suc (Suc s))"
  "s + 4 = Suc (Suc (Suc (Suc s)))"
  by simp_all

lemma nc_one:
  assumes "s \<noteq> e" "unat (buf ! s) < 128"
  shows "next_codepoint_state buf s e cp = (s + 1, of_nat (unat (buf ! s)), no_reason)"
  using assms by (simp add: next_codepoint_state_unfold is_standalone_iff promote_standalone)

lemma nc_two:
  assumes "s + 1 < e" "192 \<le> unat (buf ! s)" "unat (buf ! s) < 224"
    "128 \<le> unat (buf ! (s + 1))" "unat (buf ! (s + 1)) < 192"
    "v = 64 * (unat (buf ! s) mod 32) + unat (buf ! (s + 1)) mod 64"
  shows "next_codepoint_state buf s e cp =
     (if v < 128 then fail_state ''Overlong encoding seen'' s (s + 2) else (s + 2, of_nat v, no_reason))"
proof -
  let ?X = "extract_and_shift (buf ! s) HIGH_THREE_BITS 6 OR continuation_data (buf ! Suc s)"
  note a = assms [unfolded index_Suc]
  have u: "unat ?X = v" unfolding a(6) by (rule value_two)
  have X: "?X = of_nat v" by (rule word_eq_of_unat [OF u])
  have cmp: "(of_nat v :: 32 word) < 0x80 \<longleftrightarrow> v < 128"
    using word_less_of_unat [OF u, of "0x80" 128] unfolding X by simp
  show ?thesis
    unfolding index_Suc using a(1-5)
    by (simp add: next_codepoint_state_unfold is_standalone_iff is_twobyte_start_iff
          is_valid_continuation_byte_def is_continuation_iff Let_def X cmp)
qed

lemma nc_three:
  assumes "s + 2 < e" "224 \<le> unat (buf ! s)" "unat (buf ! s) < 240"
    "128 \<le> unat (buf ! (s + 1))" "unat (buf ! (s + 1)) < 192"
    "128 \<le> unat (buf ! (s + 2))" "unat (buf ! (s + 2)) < 192"
    "v = 4096 * (unat (buf ! s) mod 16) + 64 * (unat (buf ! (s + 1)) mod 64)
           + unat (buf ! (s + 2)) mod 64"
  shows "next_codepoint_state buf s e cp =
     (if v < 2048 then fail_state ''Overlong encoding seen'' s (s + 3) else (s + 3, of_nat v, no_reason))"
proof -
  let ?X = "(extract_and_shift (buf ! s) HIGH_FOUR_BITS 12
      OR push_bit 6 (continuation_data (buf ! Suc s))) OR continuation_data (buf ! Suc (Suc s))"
  note a = assms [unfolded index_Suc]
  have u: "unat ?X = v" unfolding a(8) by (rule value_three)
  have X: "?X = of_nat v" by (rule word_eq_of_unat [OF u])
  have cmp: "(of_nat v :: 32 word) < 0x800 \<longleftrightarrow> v < 2048"
    using word_less_of_unat [OF u, of "0x800" 2048] unfolding X by simp
  show ?thesis
    unfolding index_Suc using a(1-7)
    by (simp add: next_codepoint_state_unfold is_standalone_iff is_twobyte_start_iff
          is_threebyte_start_iff
          is_valid_continuation_byte_def is_continuation_iff Let_def X cmp)
qed

lemma nc_four:
  assumes "s + 3 < e" "240 \<le> unat (buf ! s)" "unat (buf ! s) < 248"
    "128 \<le> unat (buf ! (s + 1))" "unat (buf ! (s + 1)) < 192"
    "128 \<le> unat (buf ! (s + 2))" "unat (buf ! (s + 2)) < 192"
    "128 \<le> unat (buf ! (s + 3))" "unat (buf ! (s + 3)) < 192"
    "v = 262144 * (unat (buf ! s) mod 8) + 4096 * (unat (buf ! (s + 1)) mod 64)
           + 64 * (unat (buf ! (s + 2)) mod 64) + unat (buf ! (s + 3)) mod 64"
  shows "next_codepoint_state buf s e cp =
     (if v < 65536 then fail_state ''Overlong encoding seen'' s (s + 4)
      else if 1114111 < v
        then fail_state ''Non-Unicode character encoded (beyond U+10FFFF)'' s (s + 4)
      else (s + 4, of_nat v, no_reason))"
proof -
  let ?X = "((extract_and_shift (buf ! s) HIGH_FIVE_BITS 18
      OR push_bit 12 (continuation_data (buf ! Suc s)))
      OR push_bit 6 (continuation_data (buf ! Suc (Suc s))))
      OR continuation_data (buf ! Suc (Suc (Suc s)))"
  note a = assms [unfolded index_Suc]
  have u: "unat ?X = v" unfolding a(10) by (rule value_four)
  have X: "?X = of_nat v" by (rule word_eq_of_unat [OF u])
  have cmp: "(of_nat v :: 32 word) < 0x10000 \<longleftrightarrow> v < 65536"
    "(0x10FFFF :: 32 word) < of_nat v \<longleftrightarrow> 1114111 < v"
    using word_less_of_unat [OF u, of "0x10000" 65536]
      word_less_of_unat [OF u, of "0x10FFFF" 1114111] unfolding X by simp_all
  show ?thesis
    unfolding index_Suc using a(1-9)
    by (simp add: next_codepoint_state_unfold is_standalone_iff is_twobyte_start_iff
          is_threebyte_start_iff is_fourbyte_start_iff
          is_valid_continuation_byte_def is_continuation_iff Let_def X cmp)
qed

section \<open>Decoding what the reference encoder wrote\<close>

lemma nth_middle:
  "i < length xs \<Longrightarrow> (pre @ xs @ post) ! (length pre + i) = xs ! i"
  by (simp add: nth_append)

lemma decode_encoded:
  assumes v: "v \<le> 0x10FFFF" and buf: "buf = pre @ reference_encode v @ post"
  shows "next_codepoint_state buf (length pre) (length buf) cp =
           (length pre + length (reference_encode v), of_nat v, no_reason)"
proof -
  let ?s = "length pre"
  consider (one) "v < 128" | (two) "128 \<le> v" "v < 2048" | (three) "2048 \<le> v" "v < 65536"
    | (four) "65536 \<le> v" by linarith
  then show ?thesis
  proof cases
    case one
    then have enc: "reference_encode v = [of_nat v]" using v by (simp add: reference_encode_arith)
    have b0: "buf ! ?s = of_nat v"
      using nth_middle [of 0 "reference_encode v" pre post] by (simp add: buf enc)
    have u0: "unat (buf ! ?s) = v" unfolding b0 using one by (simp add: unat_byte)
    have ne: "?s \<noteq> length buf" by (simp add: buf enc)
    have "next_codepoint_state buf ?s (length buf) cp =
        (?s + 1, of_nat (unat (buf ! ?s)), no_reason)"
      by (rule nc_one [OF ne]) (simp add: u0 one)
    then show ?thesis unfolding u0 by (simp add: enc)
  next
    case two
    then have enc: "reference_encode v = [of_nat (192 + v div 64), of_nat (128 + v mod 64)]"
      using v by (simp add: reference_encode_arith)
    have b0: "buf ! ?s = of_nat (192 + v div 64)"
      using nth_middle [of 0 "reference_encode v" pre post] by (simp add: buf enc)
    have b1: "buf ! (?s + 1) = of_nat (128 + v mod 64)"
      using nth_middle [of 1 "reference_encode v" pre post] by (simp add: buf enc)
    have u0: "unat (buf ! ?s) = 192 + v div 64"
      unfolding b0 using two by (intro unat_byte) simp
    have u1: "unat (buf ! (?s + 1)) = 128 + v mod 64"
      unfolding b1 by (intro unat_byte) simp
    have len: "?s + 1 < length buf" by (simp add: buf enc)
    have val: "v = 64 * (unat (buf ! ?s) mod 32) + unat (buf ! (?s + 1)) mod 64"
      unfolding u0 u1 using two digits2 [of v]
      by (simp add: lead_mod_two tail_mod)
    have "next_codepoint_state buf ?s (length buf) cp =
      (if v < 128 then fail_state ''Overlong encoding seen'' ?s (?s + 2)
       else (?s + 2, of_nat v, no_reason))"
      by (rule nc_two [OF len _ _ _ _ val]; unfold u0 u1; use two in simp)
    with two show ?thesis by (simp add: enc)
  next
    case three
    then have enc: "reference_encode v =
        [of_nat (224 + v div 4096), of_nat (128 + v div 64 mod 64), of_nat (128 + v mod 64)]"
      using v by (simp add: reference_encode_arith)
    have b0: "buf ! ?s = of_nat (224 + v div 4096)"
      using nth_middle [of 0 "reference_encode v" pre post] by (simp add: buf enc)
    have b1: "buf ! (?s + 1) = of_nat (128 + v div 64 mod 64)"
      using nth_middle [of 1 "reference_encode v" pre post] by (simp add: buf enc)
    have b2: "buf ! (?s + 2) = of_nat (128 + v mod 64)"
      using nth_middle [of 2 "reference_encode v" pre post] by (simp add: buf enc)
    have u0: "unat (buf ! ?s) = 224 + v div 4096"
      unfolding b0 using three by (intro unat_byte) simp
    have u1: "unat (buf ! (?s + 1)) = 128 + v div 64 mod 64"
      unfolding b1 by (intro unat_byte) simp
    have u2: "unat (buf ! (?s + 2)) = 128 + v mod 64"
      unfolding b2 by (intro unat_byte) simp
    have len: "?s + 2 < length buf" by (simp add: buf enc)
    have val: "v = 4096 * (unat (buf ! ?s) mod 16) + 64 * (unat (buf ! (?s + 1)) mod 64)
           + unat (buf ! (?s + 2)) mod 64"
      unfolding u0 u1 u2 using three digits3 [of v]
      by (simp add: lead_mod_three tail_mod)
    have "next_codepoint_state buf ?s (length buf) cp =
      (if v < 2048 then fail_state ''Overlong encoding seen'' ?s (?s + 3)
       else (?s + 3, of_nat v, no_reason))"
      by (rule nc_three [OF len _ _ _ _ _ _ val]; unfold u0 u1 u2; use three in simp)
    with three show ?thesis by (simp add: enc)
  next
    case four
    then have enc: "reference_encode v =
        [of_nat (240 + v div 262144), of_nat (128 + v div 4096 mod 64),
         of_nat (128 + v div 64 mod 64), of_nat (128 + v mod 64)]"
      using v by (simp add: reference_encode_arith)
    have b0: "buf ! ?s = of_nat (240 + v div 262144)"
      using nth_middle [of 0 "reference_encode v" pre post] by (simp add: buf enc)
    have b1: "buf ! (?s + 1) = of_nat (128 + v div 4096 mod 64)"
      using nth_middle [of 1 "reference_encode v" pre post] by (simp add: buf enc)
    have b2: "buf ! (?s + 2) = of_nat (128 + v div 64 mod 64)"
      using nth_middle [of 2 "reference_encode v" pre post] by (simp add: buf enc)
    have b3: "buf ! (?s + 3) = of_nat (128 + v mod 64)"
      using nth_middle [of 3 "reference_encode v" pre post] by (simp add: buf enc)
    have u0: "unat (buf ! ?s) = 240 + v div 262144"
      unfolding b0 using v by (intro unat_byte) simp
    have u1: "unat (buf ! (?s + 1)) = 128 + v div 4096 mod 64"
      unfolding b1 by (intro unat_byte) simp
    have u2: "unat (buf ! (?s + 2)) = 128 + v div 64 mod 64"
      unfolding b2 by (intro unat_byte) simp
    have u3: "unat (buf ! (?s + 3)) = 128 + v mod 64"
      unfolding b3 by (intro unat_byte) simp
    have len: "?s + 3 < length buf" by (simp add: buf enc)
    have val: "v = 262144 * (unat (buf ! ?s) mod 8) + 4096 * (unat (buf ! (?s + 1)) mod 64)
           + 64 * (unat (buf ! (?s + 2)) mod 64) + unat (buf ! (?s + 3)) mod 64"
      unfolding u0 u1 u2 u3 using v digits4 [of v]
      by (simp add: lead_mod_four tail_mod)
    have "next_codepoint_state buf ?s (length buf) cp =
      (if v < 65536 then fail_state ''Overlong encoding seen'' ?s (?s + 4)
       else if 1114111 < v
         then fail_state ''Non-Unicode character encoded (beyond U+10FFFF)'' ?s (?s + 4)
       else (?s + 4, of_nat v, no_reason))"
      by (rule nc_four [OF len _ _ _ _ _ _ _ _ val]; unfold u0 u1 u2 u3; use v in simp)
    with four v show ?thesis by (simp add: enc)
  qed
qed

lemma reference_encode_not_Nil: "reference_encode v \<noteq> []"
  by (simp add: reference_encode_def)

lemma unat_scalar: "v \<le> 0x10FFFF \<Longrightarrow> unat (of_nat v :: char32_t) = v"
  by (simp add: unat_of_nat)

section \<open>What a successful decode has consumed\<close>

lemma digit_split: "b < k \<Longrightarrow> (k * a + b) div k = (a::nat) \<and> (k * a + b) mod k = b"
  by simp

lemma lead_restore:
  "192 \<le> x \<Longrightarrow> x < 224 \<Longrightarrow> 192 + x mod 32 = (x::nat)"
  "224 \<le> x \<Longrightarrow> x < 240 \<Longrightarrow> 224 + x mod 16 = (x::nat)"
  "240 \<le> x \<Longrightarrow> x < 248 \<Longrightarrow> 240 + x mod 8 = (x::nat)"
  "128 \<le> x \<Longrightarrow> x < 192 \<Longrightarrow> 128 + x mod 64 = (x::nat)"
proof -
  show "192 \<le> x \<Longrightarrow> x < 224 \<Longrightarrow> 192 + x mod 32 = x"
    using lead_mod_two [of "x - 192"] by simp
  show "224 \<le> x \<Longrightarrow> x < 240 \<Longrightarrow> 224 + x mod 16 = x"
    using lead_mod_three [of "x - 224"] by simp
  show "240 \<le> x \<Longrightarrow> x < 248 \<Longrightarrow> 240 + x mod 8 = x"
    using lead_mod_four [of "x - 240"] by simp
  show "128 \<le> x \<Longrightarrow> x < 192 \<Longrightarrow> 128 + x mod 64 = x"
    using mod_mult_self4 [of 64 2 "x - 128"] by simp
qed

lemma encode_one: "unat (c :: cchar) < 128 \<Longrightarrow> reference_encode (unat c) = [c]"
  by (simp add: reference_encode_def)

lemma encode_two:
  assumes "192 \<le> unat (c0::cchar)" "unat c0 < 224" "128 \<le> unat (c1::cchar)" "unat c1 < 192"
    "v = 64 * (unat c0 mod 32) + unat c1 mod 64" "128 \<le> v"
  shows "reference_encode v = [c0, c1]"
proof -
  have d: "v div 64 = unat c0 mod 32" "v mod 64 = unat c1 mod 64"
    using digit_split [of "unat c1 mod 64" 64 "unat c0 mod 32"] by (simp_all add: assms(5))
  have "v < 2048" unfolding assms(5)
    using mod_less_divisor [of 32 "unat c0"] mod_less_divisor [of 64 "unat c1"] by linarith
  then have "reference_encode v = [of_nat (192 + v div 64), of_nat (128 + v mod 64)]"
    using assms(6) by (simp add: reference_encode_arith)
  also have "\<dots> = [of_nat (unat c0), of_nat (unat c1)]"
    unfolding d using assms(1-4) by (simp only: lead_restore)
  finally show ?thesis by simp
qed

lemma encode_three:
  assumes "224 \<le> unat (c0::cchar)" "unat c0 < 240" "128 \<le> unat (c1::cchar)" "unat c1 < 192"
    "128 \<le> unat (c2::cchar)" "unat c2 < 192"
    "v = 4096 * (unat c0 mod 16) + 64 * (unat c1 mod 64) + unat c2 mod 64" "2048 \<le> v"
  shows "reference_encode v = [c0, c1, c2]"
proof -
  let ?w = "64 * (unat c0 mod 16) + unat c1 mod 64"
  have v: "v = 64 * ?w + unat c2 mod 64" by (simp add: assms(7))
  have d0: "v div 64 = ?w" "v mod 64 = unat c2 mod 64"
    using digit_split [of "unat c2 mod 64" 64 ?w] unfolding v by simp_all
  have d1: "?w div 64 = unat c0 mod 16" "?w mod 64 = unat c1 mod 64"
    using digit_split [of "unat c1 mod 64" 64 "unat c0 mod 16"] by simp_all
  have "v div 4096 = v div 64 div 64" by (simp add: div_mult2_eq)
  then have d2: "v div 4096 = unat c0 mod 16" "v div 64 mod 64 = unat c1 mod 64"
    unfolding d0 d1 by simp_all
  have "v < 65536" unfolding assms(7)
    using mod_less_divisor [of 16 "unat c0"] mod_less_divisor [of 64 "unat c1"]
      mod_less_divisor [of 64 "unat c2"] by linarith
  then have "reference_encode v =
      [of_nat (224 + v div 4096), of_nat (128 + v div 64 mod 64), of_nat (128 + v mod 64)]"
    using assms(8) by (simp add: reference_encode_arith)
  also have "\<dots> = [of_nat (unat c0), of_nat (unat c1), of_nat (unat c2)]"
    unfolding d2 d0(2) using assms(1-6) by (simp only: lead_restore)
  finally show ?thesis by simp
qed

lemma encode_four:
  assumes "240 \<le> unat (c0::cchar)" "unat c0 < 248" "128 \<le> unat (c1::cchar)" "unat c1 < 192"
    "128 \<le> unat (c2::cchar)" "unat c2 < 192" "128 \<le> unat (c3::cchar)" "unat c3 < 192"
    "v = 262144 * (unat c0 mod 8) + 4096 * (unat c1 mod 64) + 64 * (unat c2 mod 64)
           + unat c3 mod 64" "65536 \<le> v" "v \<le> 1114111"
  shows "reference_encode v = [c0, c1, c2, c3]"
proof -
  let ?w1 = "64 * (unat c0 mod 8) + unat c1 mod 64"
  let ?w2 = "64 * ?w1 + unat c2 mod 64"
  have v: "v = 64 * ?w2 + unat c3 mod 64" by (simp add: assms(9))
  have d0: "v div 64 = ?w2" "v mod 64 = unat c3 mod 64"
    using digit_split [of "unat c3 mod 64" 64 ?w2] unfolding v by simp_all
  have d1: "?w2 div 64 = ?w1" "?w2 mod 64 = unat c2 mod 64"
    using digit_split [of "unat c2 mod 64" 64 ?w1] by simp_all
  have d2: "?w1 div 64 = unat c0 mod 8" "?w1 mod 64 = unat c1 mod 64"
    using digit_split [of "unat c1 mod 64" 64 "unat c0 mod 8"] by simp_all
  have "v div 4096 = v div 64 div 64" "v div 262144 = v div 64 div 64 div 64"
    by (simp_all add: div_mult2_eq)
  then have d3: "v div 262144 = unat c0 mod 8" "v div 4096 mod 64 = unat c1 mod 64"
    "v div 64 mod 64 = unat c2 mod 64"
    unfolding d0 d1 d2 by simp_all
  have "reference_encode v =
      [of_nat (240 + v div 262144), of_nat (128 + v div 4096 mod 64),
       of_nat (128 + v div 64 mod 64), of_nat (128 + v mod 64)]"
    using assms(10,11) by (simp add: reference_encode_arith)
  also have "\<dots> = [of_nat (unat c0), of_nat (unat c1), of_nat (unat c2), of_nat (unat c3)]"
    unfolding d3 d0(2) using assms(1-8) by (simp only: lead_restore)
  finally show ?thesis by simp
qed

lemma success_cases:
  assumes "s < e" "next_codepoint_state buf s e cp0 = (p, cp, r)" "explanation r = []"
  obtains
    (one) "is_standalone (buf ! s)" "p = s + 1"
  | (two) "\<not> is_standalone (buf ! s)" "is_twobyte_start (buf ! s)" "s + 1 < e"
      "is_continuation (buf ! (s + 1))" "p = s + 2"
  | (three) "\<not> is_standalone (buf ! s)" "\<not> is_twobyte_start (buf ! s)"
      "is_threebyte_start (buf ! s)" "s + 2 < e"
      "is_continuation (buf ! (s + 1))" "is_continuation (buf ! (s + 2))" "p = s + 3"
  | (four) "\<not> is_standalone (buf ! s)" "\<not> is_twobyte_start (buf ! s)"
      "\<not> is_threebyte_start (buf ! s)" "is_fourbyte_start (buf ! s)" "s + 3 < e"
      "is_continuation (buf ! (s + 1))" "is_continuation (buf ! (s + 2))"
      "is_continuation (buf ! (s + 3))" "p = s + 4"
proof -
  have "(is_standalone (buf ! s) \<and> p = s + 1) \<or>
    (\<not> is_standalone (buf ! s) \<and> is_twobyte_start (buf ! s) \<and> s + 1 \<noteq> e \<and>
      is_continuation (buf ! (s + 1)) \<and> p = s + 2) \<or>
    (\<not> is_standalone (buf ! s) \<and> \<not> is_twobyte_start (buf ! s) \<and>
      is_threebyte_start (buf ! s) \<and> s + 1 \<noteq> e \<and> s + 2 \<noteq> e \<and>
      is_continuation (buf ! (s + 1)) \<and> is_continuation (buf ! (s + 2)) \<and> p = s + 3) \<or>
    (\<not> is_standalone (buf ! s) \<and> \<not> is_twobyte_start (buf ! s) \<and>
      \<not> is_threebyte_start (buf ! s) \<and> is_fourbyte_start (buf ! s) \<and>
      s + 1 \<noteq> e \<and> s + 2 \<noteq> e \<and> s + 3 \<noteq> e \<and>
      is_continuation (buf ! (s + 1)) \<and> is_continuation (buf ! (s + 2)) \<and>
      is_continuation (buf ! (s + 3)) \<and> p = s + 4)"
    using assms unfolding index_Suc
    by (auto simp add: decoder_defs split: option.splits if_splits)
  moreover have "s + 1 \<noteq> e \<Longrightarrow> s + 1 < e"
    "s + 1 \<noteq> e \<Longrightarrow> s + 2 \<noteq> e \<Longrightarrow> s + 2 < e"
    "s + 1 \<noteq> e \<Longrightarrow> s + 2 \<noteq> e \<Longrightarrow> s + 3 \<noteq> e \<Longrightarrow> s + 3 < e"
    using assms(1) by arith+
  ultimately show thesis using one two three four by blast
qed

lemma take_drop_bytes:
  "s + 1 \<le> length buf \<Longrightarrow> take 1 (drop s buf) = [buf ! s]"
  "s + 2 \<le> length buf \<Longrightarrow> take 2 (drop s buf) = [buf ! s, buf ! (s + 1)]"
  "s + 3 \<le> length buf \<Longrightarrow> take 3 (drop s buf) = [buf ! s, buf ! (s + 1), buf ! (s + 2)]"
  "s + 4 \<le> length buf \<Longrightarrow>
     take 4 (drop s buf) = [buf ! s, buf ! (s + 1), buf ! (s + 2), buf ! (s + 3)]"
  by (simp_all add: eval_nat_numeral take_Suc_conv_app_nth)

lemma reference_encode_replacement: "reference_encode 0xFFFD = [0xEF, 0xBF, 0xBD]"
  by (simp add: reference_encode_arith)

lemma success_genuine:
  assumes "s < e" "e \<le> length buf" "next_codepoint_state buf s e cp0 = (p, cp, r)"
    "explanation r = []"
  shows "cp \<le> 0x10FFFF \<and> take (p - s) (drop s buf) = reference_encode (unat cp)"
  using assms(1,3,4)
proof (cases rule: success_cases)
  case one
  then have u: "unat (buf ! s) < 128" by (simp add: is_standalone_iff)
  from nc_one [OF _ u, of e cp0] assms(1,3) have cp: "cp = of_nat (unat (buf ! s))" by simp
  have ucp: "unat cp = unat (buf ! s)" unfolding cp unat_of_nat using u by simp
  have "cp \<le> 0x10FFFF" using ucp u by (simp add: word_le_nat_alt)
  moreover have "take (p - s) (drop s buf) = reference_encode (unat cp)"
  proof -
    have "p - s = 1" using one by simp
    then show ?thesis unfolding ucp encode_one [OF u]
      using take_drop_bytes(1) [of s buf] assms(1,2) by simp
  qed
  ultimately show ?thesis by simp
next
  case two
  define v where "v = 64 * (unat (buf ! s) mod 32) + unat (buf ! (s + 1)) mod 64"
  from two have b: "192 \<le> unat (buf ! s)" "unat (buf ! s) < 224"
    "128 \<le> unat (buf ! (s + 1))" "unat (buf ! (s + 1)) < 192"
    by (simp_all add: is_twobyte_start_iff is_continuation_iff)
  from nc_two [OF two(3) b v_def, of cp0] assms(3,4)
  have ok: "128 \<le> v" and cp: "cp = of_nat v"
    by (auto simp: fail_state_eq split: if_splits)
  have "v < 2048" unfolding v_def
    using mod_less_divisor [of 32 "unat (buf ! s)"] mod_less_divisor [of 64 "unat (buf ! (s + 1))"]
    by linarith
  then have ucp: "unat cp = v" unfolding cp by (simp add: unat_of_nat)
  have "cp \<le> 0x10FFFF" using ucp \<open>v < 2048\<close> by (simp add: word_le_nat_alt)
  moreover have "take (p - s) (drop s buf) = reference_encode (unat cp)"
  proof -
    have "p - s = 2" using two by simp
    then show ?thesis unfolding ucp encode_two [OF b v_def ok]
      using take_drop_bytes(2) [of s buf] two(3) assms(2) by simp
  qed
  ultimately show ?thesis by simp
next
  case three
  define v where "v = 4096 * (unat (buf ! s) mod 16) + 64 * (unat (buf ! (s + 1)) mod 64)
           + unat (buf ! (s + 2)) mod 64"
  from three have b: "224 \<le> unat (buf ! s)" "unat (buf ! s) < 240"
    "128 \<le> unat (buf ! (s + 1))" "unat (buf ! (s + 1)) < 192"
    "128 \<le> unat (buf ! (s + 2))" "unat (buf ! (s + 2)) < 192"
    by (simp_all add: is_threebyte_start_iff is_continuation_iff)
  from nc_three [OF three(4) b v_def, of cp0] assms(3,4)
  have ok: "2048 \<le> v" and cp: "cp = of_nat v"
    by (auto simp: fail_state_eq split: if_splits)
  have "v < 65536" unfolding v_def
    using mod_less_divisor [of 16 "unat (buf ! s)"] mod_less_divisor [of 64 "unat (buf ! (s + 1))"]
      mod_less_divisor [of 64 "unat (buf ! (s + 2))"]
    by linarith
  then have ucp: "unat cp = v" unfolding cp by (simp add: unat_of_nat)
  have "cp \<le> 0x10FFFF" using ucp \<open>v < 65536\<close> by (simp add: word_le_nat_alt)
  moreover have "take (p - s) (drop s buf) = reference_encode (unat cp)"
  proof -
    have "p - s = 3" using three by simp
    then show ?thesis unfolding ucp encode_three [OF b v_def ok]
      using take_drop_bytes(3) [of s buf] three(4) assms(2) by simp
  qed
  ultimately show ?thesis by simp
next
  case four
  define v where "v = 262144 * (unat (buf ! s) mod 8) + 4096 * (unat (buf ! (s + 1)) mod 64)
           + 64 * (unat (buf ! (s + 2)) mod 64) + unat (buf ! (s + 3)) mod 64"
  from four have b: "240 \<le> unat (buf ! s)" "unat (buf ! s) < 248"
    "128 \<le> unat (buf ! (s + 1))" "unat (buf ! (s + 1)) < 192"
    "128 \<le> unat (buf ! (s + 2))" "unat (buf ! (s + 2)) < 192"
    "128 \<le> unat (buf ! (s + 3))" "unat (buf ! (s + 3)) < 192"
    by (simp_all add: is_fourbyte_start_iff is_continuation_iff)
  from nc_four [OF four(5) b v_def, of cp0] assms(3,4)
  have ok: "65536 \<le> v" "v \<le> 1114111" and cp: "cp = of_nat v"
    by (auto simp: fail_state_eq split: if_splits)
  have ucp: "unat cp = v" unfolding cp using ok(2) by (simp add: unat_of_nat)
  have "cp \<le> 0x10FFFF" using ucp ok(2) by (simp add: word_le_nat_alt)
  moreover have "take (p - s) (drop s buf) = reference_encode (unat cp)"
  proof -
    have "p - s = 4" using four by simp
    then show ?thesis unfolding ucp encode_four [OF b v_def ok]
      using take_drop_bytes(4) [of s buf] four(5) assms(2) by simp
  qed
  ultimately show ?thesis by simp
qed

lemma failure_not_genuine:
  assumes "s < e" "e \<le> length buf" "next_codepoint_state buf s e cp0 = (p, cp, r)"
    "explanation r \<noteq> []"
  shows "cp = 0xFFFD \<and> (p, cp, r) = fail_state (explanation r) s p \<and>
    take (p - s) (drop s buf) \<noteq> reference_encode (unat cp)"
proof -
  from next_codepoint_fail_shape [OF _ assms(3,4)] assms(1)
  have cp: "cp = 0xFFFD" and sp: "s < p" and pos: "position r = p - s - 1" by simp_all
  from next_codepoint_progress [OF assms(1), of buf cp0] assms(3) have pe: "p \<le> e" by simp
  have shape: "(p, cp, r) = fail_state (explanation r) s p"
    using cp pos by (simp add: fail_state_eq)
  have "take (p - s) (drop s buf) \<noteq> [0xEF, 0xBF, 0xBD]"
  proof
    assume eq: "take (p - s) (drop s buf) = [0xEF, 0xBF, 0xBD]"
    from arg_cong [OF eq, of length] pe assms(2) sp have p: "p = s + 3" by simp
    with pe assms(2) have len: "s + 3 \<le> length buf" "s + 2 < e" by simp_all
    from eq have b: "buf ! s = 0xEF" "buf ! (s + 1) = 0xBF" "buf ! (s + 2) = 0xBD"
      unfolding p using take_drop_bytes(3) [OF len(1)] by simp_all
    have "next_codepoint_state buf s e cp0 =
       (if 65533 < (2048::nat) then fail_state ''Overlong encoding seen'' s (s + 3)
        else (s + 3, of_nat 65533, no_reason))"
      by (rule nc_three [OF len(2)]; unfold b; simp)
    with assms(3,4) show False by (auto simp: no_reason_def)
  qed
  with cp shape show ?thesis by (simp add: reference_encode_replacement)
qed

section \<open>The callers read a dead reference\<close>

lemma is_valid_internal_nonempty:
  assumes "begin \<noteq> e"
  shows "is_valid_internal buf begin e r = Some (Inl Read_of_dead_local)"
proof -
  obtain ref cp r' where nc: "next_codepoint buf begin e 0 = (ref, cp, r')"
    by (cases "next_codepoint buf begin e 0") auto
  with next_codepoint_read [of buf "begin" e 0] have "read_ref ref = Inl Read_of_dead_local"
    by simp
  with nc assms show ?thesis
    unfolding is_valid_internal_def by (subst is_valid_loop.simps) simp
qed

lemma is_valid_nonempty:
  assumes "str \<noteq> []"
  shows "is_valid_reason str r = Some (Inl Read_of_dead_local)"
    and "is_valid str = Some (Inl Read_of_dead_local)"
  using assms is_valid_internal_nonempty [of 0 "length str" str]
  by (simp_all add: is_valid_reason_def is_valid_def)

lemma next_textual_element_undefined:
  "next_textual_element buf begin e keep_going = Some (Inl Read_of_dead_local)"
proof -
  obtain ref cp r' where nc: "next_codepoint buf begin e 0 = (ref, cp, r')"
    by (cases "next_codepoint buf begin e 0") auto
  with next_codepoint_read [of buf "begin" e 0] have "read_ref ref = Inl Read_of_dead_local"
    by simp
  with nc show ?thesis
    unfolding next_textual_element_def by (subst next_textual_element_loop.simps) simp
qed

lemma concat_encoded_not_Nil: "vs \<noteq> [] \<Longrightarrow> concat (map reference_encode vs) \<noteq> []"
  by (cases vs) (simp_all add: reference_encode_not_Nil)

section \<open>The claims\<close>

text \<open>
  C1, on the code as it is. Where the reference encoder has written a value of
  \<open>[0, 0x10FFFF]\<close> into a buffer, one call of \<open>next_codepoint\<close> at the start of
  that encoding leaves exactly this value in \<open>*codepoint\<close> and the empty reason,
  with its position variable at the end of the encoding. But the position leaves
  the function only as a reference to that variable, which no longer exists:
  \<open>is_valid\<close> has to read it to go on, so on every non-empty encoded buffer it runs
  into undefined behaviour instead of returning true, and so does any caller that
  steps through the buffer.
\<close>

theorem encoded_scan_reads_dead_reference:
  "(v \<le> 0x10FFFF \<longrightarrow>
      snd (next_codepoint (pre @ reference_encode v @ post) (length pre)
             (length (pre @ reference_encode v @ post)) cp) = (of_nat v, no_reason) \<and>
      fst (next_codepoint (pre @ reference_encode v @ post) (length pre)
             (length (pre @ reference_encode v @ post)) cp) =
        Dead (length pre + length (reference_encode v)) \<and>
      unat (of_nat v :: char32_t) = v) \<and>
   (vs \<noteq> [] \<and> (\<forall>v \<in> set vs. v \<le> 0x10FFFF) \<longrightarrow>
      is_valid (concat (map reference_encode vs)) = Some (Inl Read_of_dead_local))"
proof (intro conjI impI)
  assume v: "v \<le> 0x10FFFF"
  let ?buf = "pre @ reference_encode v @ post"
  from decode_encoded [OF v refl, of pre post cp]
  have st: "next_codepoint_state ?buf (length pre) (length ?buf) cp =
      (length pre + length (reference_encode v), of_nat v, no_reason)" .
  from st show "snd (next_codepoint ?buf (length pre) (length ?buf) cp) = (of_nat v, no_reason)"
    by (simp add: next_codepoint_dead)
  from st show "fst (next_codepoint ?buf (length pre) (length ?buf) cp) =
      Dead (length pre + length (reference_encode v))"
    by (simp add: next_codepoint_dead)
  from v show "unat (of_nat v :: char32_t) = v" by (rule unat_scalar)
next
  assume "vs \<noteq> [] \<and> (\<forall>v \<in> set vs. v \<le> 0x10FFFF)"
  then have "vs \<noteq> []" by simp
  then have "concat (map reference_encode vs) \<noteq> []" by (rule concat_encoded_not_Nil)
  then show "is_valid (concat (map reference_encode vs)) = Some (Inl Read_of_dead_local)"
    by (rule is_valid_nonempty)
qed

theorem encoded_scan_reads_dead_reference_witness:
  "list_all (\<lambda>v. v \<le> 0x10FFFF) [0x41, 0xE9, 0x20AC, 0x1F600, 0xD800, 0x10FFFF :: nat] \<and>
   is_valid [0x41, 0xC3, 0xA9, 0xE2, 0x82, 0xAC, 0xF0, 0x9F, 0x98, 0x80, 0xED, 0xA0, 0x80,
             0xF4, 0x8F, 0xBF, 0xBF] = Some (Inl Read_of_dead_local) \<and>
   next_codepoint [0x41, 0xC3, 0xA9, 0xE2] 1 4 0 = (Dead 3, 0xE9, no_reason)"
proof -
  have enc: "concat (map reference_encode [0x41, 0xE9, 0x20AC, 0x1F600, 0xD800, 0x10FFFF]) =
     [0x41, 0xC3, 0xA9, 0xE2, 0x82, 0xAC, 0xF0, 0x9F, 0x98, 0x80, 0xED, 0xA0, 0x80,
      0xF4, 0x8F, 0xBF, 0xBF]"
    by (simp add: reference_encode_arith)
  have b: "[0x41] @ reference_encode 0xE9 @ [0xE2] = [0x41, 0xC3, 0xA9, 0xE2]"
    and l2: "length (reference_encode 0xE9) = 2"
    by (simp_all add: reference_encode_arith)
  have l1: "length [0x41 :: cchar] = 1"
    and l4: "length [0x41, 0xC3, 0xA9, 0xE2 :: cchar] = 4"
    by simp_all
  have h: "[0x41, 0xE9, 0x20AC, 0x1F600, 0xD800, 0x10FFFF] \<noteq> [] \<and>
      (\<forall>v \<in> set [0x41, 0xE9, 0x20AC, 0x1F600, 0xD800, 0x10FFFF :: nat]. v \<le> 0x10FFFF)"
    and h': "(0xE9::nat) \<le> 0x10FFFF"
    by simp_all
  note inst = encoded_scan_reads_dead_reference
    [where v = "0xE9" and pre = "[0x41]" and post = "[0xE2]" and cp = 0
       and vs = "[0x41, 0xE9, 0x20AC, 0x1F600, 0xD800, 0x10FFFF]"]
  from inst h have scan:
    "is_valid (concat (map reference_encode [0x41, 0xE9, 0x20AC, 0x1F600, 0xD800, 0x10FFFF])) =
       Some (Inl Read_of_dead_local)"
    by blast
  from inst h' have
    "snd (next_codepoint ([0x41] @ reference_encode 0xE9 @ [0xE2]) (length [0x41 :: cchar])
       (length ([0x41] @ reference_encode 0xE9 @ [0xE2])) 0) = (of_nat 0xE9, no_reason)"
    "fst (next_codepoint ([0x41] @ reference_encode 0xE9 @ [0xE2]) (length [0x41 :: cchar])
       (length ([0x41] @ reference_encode 0xE9 @ [0xE2])) 0) =
     Dead (length [0x41 :: cchar] + length (reference_encode 0xE9))"
    by blast+
  then have "snd (next_codepoint [0x41, 0xC3, 0xA9, 0xE2] 1 4 0) = (0xE9, no_reason)"
    "fst (next_codepoint [0x41, 0xC3, 0xA9, 0xE2] 1 4 0) = Dead 3"
    unfolding b l1 l2 l4 by simp_all
  then have "next_codepoint [0x41, 0xC3, 0xA9, 0xE2] 1 4 0 = (Dead 3, 0xE9, no_reason)"
    by (simp add: prod_eq_iff)
  with scan show ?thesis unfolding enc by simp
qed

text \<open>
  C2, on the code as it is. On every non-empty range inside the buffer the position
  variable of \<open>next_codepoint\<close> ends strictly past the start and not beyond the end,
  on success and on failure. What the function returns, however, is a reference to
  that variable after its lifetime: reading the returned position is undefined, and
  the validity scanner, which reads it in its first iteration, meets undefined
  behaviour on every non-empty range instead of scanning to the end.
\<close>

theorem next_codepoint_returns_dead_reference:
  "(s < e \<and> e \<le> length buf \<longrightarrow>
      (\<exists>p. fst (next_codepoint buf s e cp) = Dead p \<and> s < p \<and> p \<le> e) \<and>
      read_ref (fst (next_codepoint buf s e cp)) = Inl Read_of_dead_local \<and>
      is_valid_internal buf s e r = Some (Inl Read_of_dead_local)) \<and>
   (str \<noteq> [] \<longrightarrow>
      is_valid_reason str r = Some (Inl Read_of_dead_local) \<and>
      is_valid str = Some (Inl Read_of_dead_local))"
  using next_codepoint_progress [of s e buf cp] next_codepoint_dead(1) [of buf s e cp]
    next_codepoint_read [of buf s e cp] is_valid_internal_nonempty [of s e buf r]
    is_valid_nonempty(1) [of str r] is_valid_nonempty(2) [of str]
  by auto

theorem next_codepoint_returns_dead_reference_witness:
  "(0::nat) < 2 \<and> 2 \<le> length [0xC3, 0x41 :: cchar] \<and>
   read_ref (fst (next_codepoint [0xC3, 0x41] 0 2 0)) = Inl Read_of_dead_local \<and>
   is_valid_internal [0xC3, 0x41] 0 2 no_reason = Some (Inl Read_of_dead_local) \<and>
   [0xC3, 0x41 :: cchar] \<noteq> [] \<and>
   is_valid [0xC3, 0x41] = Some (Inl Read_of_dead_local)"
  using next_codepoint_returns_dead_reference
    [where s = 0 and e = 2 and buf = "[0xC3, 0x41]" and cp = 0 and str = "[0xC3, 0x41]"
       and r = no_reason]
  by simp




text \<open>
  C4, as the code has it. Whenever a multi-byte sequence is truncated by the end of
  the range, \<open>next_codepoint\<close> fails with "Expected continuation byte, saw end of
  string" and reports the offset of the last available byte, \<open>end - start - 1\<close>.
\<close>

theorem truncated_sequence_offset:
  "truncated buf s e \<Longrightarrow>
     snd (next_codepoint buf s e cp) =
       (0xFFFD, \<lparr>explanation = ''Expected continuation byte, saw end of string'',
                 position = e - s - 1\<rparr>)"
  using truncated_end_of_input [of buf s e cp] by (simp add: next_codepoint_dead)

theorem truncated_sequence_offset_witness:
  "truncated [0xE0, 0x80] 0 2 \<and>
   snd (next_codepoint [0xE0, 0x80] 0 2 0) =
     (0xFFFD, \<lparr>explanation = ''Expected continuation byte, saw end of string'',
               position = 1\<rparr>)"
proof -
  have t: "truncated [0xE0, 0x80] 0 2"
    by (simp add: truncated_def announced_length_def classifier_defs)
  from truncated_sequence_offset [OF t, of 0] t show ?thesis by simp
qed

text \<open>
  C4, as the spec states it, does not hold: on \<open>[0xE0, 0x80]\<close> the reported offset
  is not 2, the offset just past the last available byte.
\<close>

theorem truncated_sequence_offset_not_past_end:
  "truncated [0xE0, 0x80] 0 2 \<and>
   explanation (snd (snd (next_codepoint [0xE0, 0x80] 0 2 0))) =
     ''Expected continuation byte, saw end of string'' \<and>
   position (snd (snd (next_codepoint [0xE0, 0x80] 0 2 0))) \<noteq> 2"
  by (simp add: truncated_def announced_length_def reference_defs classifier_defs)

text \<open>
  C5, as the code has it. Decoding \<open>[0xC0, 0x80]\<close> fails with "Overlong encoding
  seen" and the reported offset is 1, the offset of the last consumed byte; the
  position variable stands at 2.
\<close>

theorem overlong_two_byte_offset:
  "next_codepoint [0xC0, 0x80] 0 2 cp =
     (Dead 2, 0xFFFD, \<lparr>explanation = ''Overlong encoding seen'', position = 1\<rparr>)"
  by (simp add: reference_defs classifier_defs)

text \<open>C5, as the spec states it (offset 0), does not hold: the offset is not 0.\<close>

theorem overlong_two_byte_offset_not_zero:
  "explanation (snd (snd (next_codepoint [0xC0, 0x80] 0 2 0))) = ''Overlong encoding seen'' \<and>
   position (snd (snd (next_codepoint [0xC0, 0x80] 0 2 0))) \<noteq> 0"
  by (simp add: reference_defs classifier_defs)

text \<open>
  C6. On every non-empty range inside the buffer, the reason that \<open>next_codepoint\<close>
  returns is empty if and only if the returned codepoint is a genuine decoded value:
  it is at most \<open>0x10FFFF\<close> and the bytes consumed are the encoding of that
  codepoint. When the reason is not empty the codepoint is \<open>0xFFFD\<close> and the whole
  result is the one \<open>fail\<close> builds.
\<close>

theorem reason_empty_iff_genuine:
  "s < e \<and> e \<le> length buf \<and> next_codepoint buf s e cp0 = (ref, cp, r) \<longrightarrow>
     (explanation r = [] \<longleftrightarrow>
        cp \<le> 0x10FFFF \<and>
        take (referent ref - s) (drop s buf) = reference_encode (unat cp)) \<and>
     (explanation r \<noteq> [] \<longrightarrow>
        cp = 0xFFFD \<and> (Live (referent ref), cp, r) = fail (explanation r) s (referent ref))"
proof (intro impI, elim conjE)
  assume lt: "s < e" and le: "e \<le> length buf"
    and nc: "next_codepoint buf s e cp0 = (ref, cp, r)"
  from nc have st: "next_codepoint_state buf s e cp0 = (referent ref, cp, r)"
    by (simp add: next_codepoint_eq_iff)
  from success_genuine [OF lt le st] failure_not_genuine [OF lt le st]
  show "(explanation r = [] \<longleftrightarrow>
        cp \<le> 0x10FFFF \<and>
        take (referent ref - s) (drop s buf) = reference_encode (unat cp)) \<and>
     (explanation r \<noteq> [] \<longrightarrow>
        cp = 0xFFFD \<and> (Live (referent ref), cp, r) = fail (explanation r) s (referent ref))"
    by (auto simp: fail_def state_of_def)
qed

theorem reason_empty_iff_genuine_witness:
  "(0::nat) < 3 \<and> 3 \<le> length [0xE2, 0x82, 0xAC :: cchar] \<and>
   next_codepoint [0xE2, 0x82, 0xAC] 0 3 0 =
     (Dead 3, 0x20AC, \<lparr>explanation = [], position = 0\<rparr>) \<and>
   reference_encode (unat (0x20AC :: char32_t)) = [0xE2, 0x82, 0xAC] \<and>
   next_codepoint [0xE2, 0x82, 0x41] 0 3 0 =
     (Dead 2, 0xFFFD,
      \<lparr>explanation = ''Expected continuation byte, saw something else'', position = 1\<rparr>) \<and>
   [0xE2, 0x82] \<noteq> reference_encode (unat (0xFFFD :: char32_t))"
proof -
  have ok: "next_codepoint [0xE2, 0x82, 0xAC] 0 3 0 =
      (Dead 3, 0x20AC, \<lparr>explanation = [], position = 0\<rparr>)"
    by (simp add: reference_defs classifier_defs)
  have bad: "next_codepoint [0xE2, 0x82, 0x41] 0 3 0 =
     (Dead 2, 0xFFFD,
      \<lparr>explanation = ''Expected continuation byte, saw something else'', position = 1\<rparr>)"
    by (simp add: reference_defs classifier_defs)
  from reason_empty_iff_genuine
    [of 0 3 "[0xE2, 0x82, 0xAC]" 0 "Dead 3" "0x20AC" "\<lparr>explanation = [], position = 0\<rparr>"] ok
  have "reference_encode (unat (0x20AC :: char32_t)) = [0xE2, 0x82, 0xAC]" by simp
  moreover from reason_empty_iff_genuine
    [of 0 3 "[0xE2, 0x82, 0x41]" 0 "Dead 2" "0xFFFD"
      "\<lparr>explanation = ''Expected continuation byte, saw something else'', position = 1\<rparr>"] bad
  have "[0xE2, 0x82] \<noteq> reference_encode (unat (0xFFFD :: char32_t))" by simp
  ultimately show ?thesis using ok bad by simp
qed

text \<open>
  C7, on the code as it is. The first statement of the loop body of
  \<open>next_textual_element\<close> assigns \<open>cend\<close> from the reference that \<open>next_codepoint\<close>
  returned, a reference to a variable that no longer exists. So on every range and
  for every predicate the function meets undefined behaviour before it has
  consumed a codepoint or looked at a reason: it neither returns a position after
  the first codepoint nor the start of a later, failing one.
\<close>

theorem next_textual_element_reads_dead_reference:
  "next_textual_element buf begin e keep_going = Some (Inl Read_of_dead_local) \<and>
   next_textual_element [0x41, 0x42, 0x80] 0 3 (\<lambda>_. True) = Some (Inl Read_of_dead_local)"
  by (simp add: next_textual_element_undefined)

text \<open>
  C8. The bytes \<open>[0xF4, 0x90, 0x80, 0x80]\<close> accumulate to the value \<open>0x110000\<close>;
  decoding them fails with "Non-Unicode character encoded (beyond U+10FFFF)" and the
  reported offset is 3, the offset of the last consumed byte.
\<close>

theorem out_of_range_four_byte_offset:
  "((extract_and_shift 0xF4 HIGH_FIVE_BITS 18 OR push_bit 12 (continuation_data 0x90))
      OR push_bit 6 (continuation_data 0x80)) OR continuation_data 0x80 = 0x110000 \<and>
   next_codepoint [0xF4, 0x90, 0x80, 0x80] 0 4 cp =
     (Dead 4, 0xFFFD,
      \<lparr>explanation = ''Non-Unicode character encoded (beyond U+10FFFF)'', position = 3\<rparr>)"
  by (simp add: reference_defs classifier_defs)

text \<open>
  C9. On a cursor that has not seen the end and whose position equals the end,
  \<open>advance\<close> sets \<open>seen_end\<close>, sets \<open>last_seen\<close> to 0 and the reason to the empty
  one, and changes nothing else (the position stays, no codepoint is decoded); on
  a cursor that has seen the end, \<open>advance\<close> changes nothing at all. Neither case
  calls \<open>next_codepoint\<close>, so neither meets undefined behaviour.
\<close>

theorem advance_at_end:
  "(\<not> seen_end it \<and> position' it = end' it \<longrightarrow>
      advance buf it =
        Inr (it\<lparr>last_seen := 0, reason := \<lparr>explanation = [], position = 0\<rparr>,
                seen_end := True\<rparr>) \<and>
      seen_end (projr (advance buf it)) \<and> last_seen (projr (advance buf it)) = 0 \<and>
      explanation (reason (projr (advance buf it))) = [] \<and>
      position' (projr (advance buf it)) = position' it) \<and>
   (seen_end it \<longrightarrow> advance buf it = Inr it)"
  by (simp add: advance_def)

theorem advance_at_end_witness:
  "advance [] \<lparr>start = 0, position' = 0, end' = 0, last_seen = 7,
       reason = \<lparr>explanation = ''x'', position = 5\<rparr>, seen_end = False\<rparr> =
     Inr \<lparr>start = 0, position' = 0, end' = 0, last_seen = 0,
       reason = \<lparr>explanation = [], position = 0\<rparr>, seen_end = True\<rparr> \<and>
   advance [] \<lparr>start = 0, position' = 0, end' = 0, last_seen = 0,
       reason = \<lparr>explanation = [], position = 0\<rparr>, seen_end = True\<rparr> =
     Inr \<lparr>start = 0, position' = 0, end' = 0, last_seen = 0,
       reason = \<lparr>explanation = [], position = 0\<rparr>, seen_end = True\<rparr>"
  using
    advance_at_end [of "\<lparr>start = 0, position' = 0, end' = 0, last_seen = 7,
       reason = \<lparr>explanation = ''x'', position = 5\<rparr>, seen_end = False\<rparr>" "[]"]
    advance_at_end [of "\<lparr>start = 0, position' = 0, end' = 0, last_seen = 0,
       reason = \<lparr>explanation = [], position = 0\<rparr>, seen_end = True\<rparr>" "[]"]
  by simp

text \<open>
  C10, on the code as it is. The decoder itself does not reject surrogates: for
  every value in \<open>[0xD800, 0xDFFF]\<close> the encoding has three bytes and
  \<open>next_codepoint\<close> on it leaves that value in \<open>*codepoint\<close> and the empty reason
  (\<open>[0xED, 0xA0, 0x80]\<close> is the encoding of \<open>0xD800\<close>). The validity scanner,
  however, does not return true on a buffer of such sequences: like on every
  non-empty buffer, it reads the dead reference that \<open>next_codepoint\<close> returned.
\<close>

theorem surrogates_decoded_scan_reads_dead_reference:
  "(0xD800 \<le> v \<and> v \<le> 0xDFFF \<longrightarrow>
      length (reference_encode v) = 3 \<and>
      snd (next_codepoint (reference_encode v) 0 3 cp) = (of_nat v, no_reason) \<and>
      unat (of_nat v :: char32_t) = v) \<and>
   (vs \<noteq> [] \<and> (\<forall>v \<in> set vs. 0xD800 \<le> v \<and> v \<le> 0xDFFF) \<longrightarrow>
      is_valid (concat (map reference_encode vs)) = Some (Inl Read_of_dead_local)) \<and>
   reference_encode 0xD800 = [0xED, 0xA0, 0x80]"
proof (intro conjI impI)
  assume v: "0xD800 \<le> v \<and> v \<le> 0xDFFF"
  then have le: "v \<le> 0x10FFFF" by simp
  from v show len: "length (reference_encode v) = 3"
    by (simp add: reference_encode_arith)
  from decode_encoded [OF le, of "reference_encode v" "[]" "[]" cp] len
  show "snd (next_codepoint (reference_encode v) 0 3 cp) = (of_nat v, no_reason)"
    by (simp add: next_codepoint_dead)
  from le show "unat (of_nat v :: char32_t) = v" by (rule unat_scalar)
next
  assume "vs \<noteq> [] \<and> (\<forall>v \<in> set vs. 0xD800 \<le> v \<and> v \<le> 0xDFFF)"
  then have "vs \<noteq> []" by simp
  then have "concat (map reference_encode vs) \<noteq> []" by (rule concat_encoded_not_Nil)
  then show "is_valid (concat (map reference_encode vs)) = Some (Inl Read_of_dead_local)"
    by (rule is_valid_nonempty)
next
  show "reference_encode 0xD800 = [0xED, 0xA0, 0x80]"
    by (simp add: reference_encode_arith)
qed

theorem surrogates_decoded_scan_reads_dead_reference_witness:
  "(0xD800::nat) \<le> 0xDFFF \<and>
   snd (next_codepoint [0xED, 0xBF, 0xBF] 0 3 0) = (0xDFFF, \<lparr>explanation = [], position = 0\<rparr>) \<and>
   list_all (\<lambda>v. 0xD800 \<le> v \<and> v \<le> 0xDFFF) [0xD800, 0xDFFF :: nat] \<and>
   is_valid [0xED, 0xA0, 0x80, 0xED, 0xBF, 0xBF] = Some (Inl Read_of_dead_local)"
proof -
  have enc: "reference_encode 0xDFFF = [0xED, 0xBF, 0xBF]"
    "concat (map reference_encode [0xD800, 0xDFFF]) = [0xED, 0xA0, 0x80, 0xED, 0xBF, 0xBF]"
    by (simp_all add: reference_encode_arith)
  from surrogates_decoded_scan_reads_dead_reference [of "0xDFFF" 0 "[0xD800, 0xDFFF]"]
  show ?thesis unfolding enc by (simp add: no_reason_def)
qed

end
